theory Spec2Isabelle
  imports Complex_Main "HOL-Library.Word" "HOL-Library.Option_ord"
begin

section \<open>The chunk store of chopgrep (db.ts)\<close>

text \<open>
  The module keeps two SQLite structures: the table \<open>code_chunks\<close> and the vec0 virtual
  table \<open>vec_index\<close>, held in step by three triggers. The model passes the database
  content explicitly: every operation takes the content before and returns the outcome
  (an error or a value) together with the content after.

  A component of a \<open>Float32Array\<close> is kept as its 32-bit pattern; the code of the
  repository only counts, copies and zero-fills components. A distance is the value of
  the column \<open>distance\<close> that the vector index reports: a number or NULL (\<open>None\<close>). The
  module computes no distance; it orders the reported ones (\<open>ORDER BY\<close>) and converts
  them with \<open>Number\<close>. A number is a real here, since the order of finite
  doubles is the order of their values. Integers of JavaScript (\<open>k\<close>, \<open>batchSize\<close>,
  indices, rowids) are integers; the default values \<open>k = 5\<close> and \<open>batchSize = 500\<close>
  are arguments like any other.
\<close>

type_synonym float32 = "32 word"

definition EMBEDDING_DIM :: nat where
  "EMBEDDING_DIM = 384"

text \<open>
  \<open>DimensionMismatch n\<close> is the error thrown by \<open>assertEmbeddingDim\<close> for an array of
  length \<open>n\<close>; \<open>SQLiteError\<close> is any error raised by a statement of the storage engine.
\<close>

datatype error = DimensionMismatch nat | SQLiteError | PipelineError

text \<open>The type \<open>CodeChunkRow\<close> of db.ts; the optional \<open>id\<close> is never read by an insert.\<close>

record CodeChunkRow =
  id_opt :: "int option"
  file_name :: string
  file_path :: string
  chunk_text :: string
  inline_document :: "string option"
  embedding :: "float32 list"

text \<open>A stored row of \<open>code_chunks\<close>; the BLOB column holds the components in order.\<close>

record row =
  col_id :: int
  col_file_name :: string
  col_file_path :: string
  col_chunk_text :: string
  col_inline_document :: "string option"
  col_embedding :: "float32 list"

text \<open>
  The content of the database: the rows of \<open>code_chunks\<close> in insertion order, the
  counter that \<open>AUTOINCREMENT\<close> keeps in \<open>sqlite_sequence\<close>, the entries of
  \<open>vec_index\<close> (rowid and vector) in insertion order, and the dimension with which the
  existing \<open>vec_index\<close> was declared.
\<close>

record db =
  code_chunks :: "row list"
  sqlite_sequence :: int
  vec_index :: "(int \<times> float32 list) list"
  vec_dim :: nat

definition empty_db :: db where
  "empty_db = \<lparr>code_chunks = [], sqlite_sequence = 0, vec_index = [], vec_dim = EMBEDDING_DIM\<rparr>"

subsection \<open>Statements on the vector index and the three triggers\<close>

datatype vec_stmt = VecInsert int "float32 list" | VecDelete int

text \<open>
  \<open>INSERT INTO vec_index(rowid, embedding)\<close> is refused when the vector has not the
  declared dimension or the rowid is taken; \<open>DELETE FROM vec_index WHERE rowid = i\<close>
  removes the entries with that rowid.
\<close>

fun exec_vec_stmt :: "vec_stmt \<Rightarrow> db \<Rightarrow> error + db" where
  "exec_vec_stmt (VecInsert i e) d =
     (if length e \<noteq> vec_dim d \<or> i \<in> set (map fst (vec_index d)) then Inl SQLiteError
      else Inr (d\<lparr>vec_index := vec_index d @ [(i, e)]\<rparr>))"
| "exec_vec_stmt (VecDelete i) d =
     Inr (d\<lparr>vec_index := filter (\<lambda>v. fst v \<noteq> i) (vec_index d)\<rparr>)"

fun exec_vec_stmts :: "vec_stmt list \<Rightarrow> db \<Rightarrow> error + db" where
  "exec_vec_stmts [] d = Inr d"
| "exec_vec_stmts (s # ss) d =
     (case exec_vec_stmt s d of Inl e \<Rightarrow> Inl e | Inr d' \<Rightarrow> exec_vec_stmts ss d')"

definition code_chunks_after_insert :: "row \<Rightarrow> vec_stmt list" where
  "code_chunks_after_insert new = [VecInsert (col_id new) (col_embedding new)]"

definition code_chunks_after_delete :: "row \<Rightarrow> vec_stmt list" where
  "code_chunks_after_delete old = [VecDelete (col_id old)]"

definition code_chunks_after_update :: "row \<Rightarrow> row \<Rightarrow> vec_stmt list" where
  "code_chunks_after_update old new =
     [VecDelete (col_id old), VecInsert (col_id new) (col_embedding new)]"

subsection \<open>Helpers\<close>

definition assertEmbeddingDim :: "float32 list \<Rightarrow> error + unit" where
  "assertEmbeddingDim arr =
     (if length arr \<noteq> EMBEDDING_DIM then Inl (DimensionMismatch (length arr)) else Inr ())"

definition float32ToBuffer :: "float32 list \<Rightarrow> float32 list" where
  "float32ToBuffer arr = arr"

subsection \<open>Inserting\<close>

text \<open>
  The rowid that \<open>INTEGER PRIMARY KEY AUTOINCREMENT\<close> assigns: one more than the largest
  of the counter and the rowids present.
\<close>

definition next_rowid :: "db \<Rightarrow> int" where
  "next_rowid d = foldr max (map col_id (code_chunks d)) (sqlite_sequence d) + 1"

definition mk_row :: "int \<Rightarrow> CodeChunkRow \<Rightarrow> row" where
  "mk_row i c =
     \<lparr>col_id = i, col_file_name = file_name c, col_file_path = file_path c,
      col_chunk_text = chunk_text c, col_inline_document = inline_document c,
      col_embedding = float32ToBuffer (embedding c)\<rparr>"

text \<open>
  One run of the prepared \<open>INSERT INTO code_chunks\<close>: the row is added, the trigger
  \<open>code_chunks_after_insert\<close> fires, and a failure inside the trigger undoes the whole
  statement. The value is \<open>lastInsertRowid\<close>.
\<close>

definition insert_code_chunks :: "CodeChunkRow \<Rightarrow> db \<Rightarrow> (error + int) \<times> db" where
  "insert_code_chunks c d =
     (let i = next_rowid d;
          new = mk_row i c;
          d1 = d\<lparr>code_chunks := code_chunks d @ [new], sqlite_sequence := i\<rparr>
      in case exec_vec_stmts (code_chunks_after_insert new) d1 of
           Inl e \<Rightarrow> (Inl e, d)
         | Inr d2 \<Rightarrow> (Inr i, d2))"

definition insertChunk :: "CodeChunkRow \<Rightarrow> db \<Rightarrow> (error + int) \<times> db" where
  "insertChunk chunk d =
     (case assertEmbeddingDim (embedding chunk) of
        Inl e \<Rightarrow> (Inl e, d)
      | Inr _ \<Rightarrow> insert_code_chunks chunk d)"

subsection \<open>Searching\<close>

text \<open>The type \<open>SearchResult\<close> of db.ts.\<close>

record SearchResult =
  res_id :: int
  res_file_name :: string
  res_file_path :: string
  res_chunk_text :: string
  res_inline_document :: "string option"
  res_distance :: real

text \<open>
  The k-nearest-neighbour lookup \<open>v.embedding MATCH ? AND v.k = ?\<close> is computed by the
  sqlite-vec extension, which is not part of the repository. It is a parameter \<open>knn\<close>
  of the model: from the entries of the index, the query vector and \<open>k\<close> it gives the
  matches (rowid and distance), or \<open>None\<close> when the extension raises an error.
\<close>

type_synonym knn_engine =
  "(int \<times> float32 list) list \<Rightarrow> float32 list \<Rightarrow> int \<Rightarrow> (int \<times> real option) list option"

text \<open>\<open>JOIN code_chunks c ON c.id = v.rowid\<close>: each match with the rows of its rowid.\<close>

definition join_code_chunks ::
  "(int \<times> real option) list \<Rightarrow> row list \<Rightarrow> (row \<times> real option) list" where
  "join_code_chunks ms rows =
     concat (map (\<lambda>m. map (\<lambda>c. (c, snd m)) (filter (\<lambda>c. col_id c = fst m) rows)) ms)"

text \<open>
  \<open>ORDER BY distance\<close> is an ascending sort by the reported distance, in which NULL
  comes before every number (the order of \<open>real option\<close>, \<open>None\<close> least); rows of equal
  distance keep the order of the matches (SQL leaves their order open). \<open>LIMIT ?\<close>
  receives the same \<open>k\<close> as \<open>v.k\<close>; a negative bound is no bound in SQLite.
\<close>

definition sql_limit :: "int \<Rightarrow> 'a list \<Rightarrow> 'a list" where
  "sql_limit k xs = (if k < 0 then xs else take (nat k) xs)"

text \<open>
  \<open>Number(r.distance)\<close>: a number is itself, NULL becomes 0. \<open>Number(r.id)\<close> is the id
  itself, the column being an integer primary key, which is never NULL.
\<close>

definition Number :: "real option \<Rightarrow> real" where
  "Number v = (case v of None \<Rightarrow> 0 | Some x \<Rightarrow> x)"

definition to_result :: "row \<times> real option \<Rightarrow> SearchResult" where
  "to_result r =
     \<lparr>res_id = col_id (fst r), res_file_name = col_file_name (fst r),
      res_file_path = col_file_path (fst r), res_chunk_text = col_chunk_text (fst r),
      res_inline_document = col_inline_document (fst r), res_distance = Number (snd r)\<rparr>"

definition searchSimilar :: "knn_engine \<Rightarrow> float32 list \<Rightarrow> int \<Rightarrow> db \<Rightarrow> error + SearchResult list" where
  "searchSimilar knn queryEmbedding k d =
     (case assertEmbeddingDim queryEmbedding of
        Inl e \<Rightarrow> Inl e
      | Inr _ \<Rightarrow>
          (case knn (vec_index d) (float32ToBuffer queryEmbedding) k of
             None \<Rightarrow> Inl SQLiteError
           | Some ms \<Rightarrow>
               Inr (map to_result
                      (sql_limit k (sort_key snd (join_code_chunks ms (code_chunks d)))))))"

text \<open>
  An engine to run the model with: a linear scan over an index declared with \<open>n\<close>
  dimensions that scores every entry with a given function, orders the entries by score
  and keeps the first \<open>k\<close>. It refuses a negative \<open>k\<close> and a query vector that has not
  \<open>n\<close> components.
\<close>

definition scan_knn :: "nat \<Rightarrow> (float32 list \<Rightarrow> float32 list \<Rightarrow> real option) \<Rightarrow> knn_engine" where
  "scan_knn n score entries q k =
     (if k < 0 \<or> length q \<noteq> n then None
      else Some (take (nat k) (sort_key snd (map (\<lambda>v. (fst v, score (snd v) q)) entries))))"

subsection \<open>Bulk insertion\<close>

text \<open>
  \<open>db.transaction(f)\<close>: the function runs between \<open>BEGIN\<close> and \<open>COMMIT\<close>; when it
  throws, \<open>ROLLBACK\<close> restores the content at \<open>BEGIN\<close> and the error is thrown again.
\<close>

definition transaction :: "(db \<Rightarrow> (error + 'a) \<times> db) \<Rightarrow> db \<Rightarrow> (error + 'a) \<times> db" where
  "transaction f d = (case f d of (Inl e, _) \<Rightarrow> (Inl e, d) | (Inr v, d') \<Rightarrow> (Inr v, d'))"

text \<open>The loop \<open>for (const c of batch)\<close> inside the transaction function.\<close>

fun insertMany_loop :: "CodeChunkRow list \<Rightarrow> db \<Rightarrow> (error + unit) \<times> db" where
  "insertMany_loop [] d = (Inr (), d)"
| "insertMany_loop (c # cs) d =
     (case assertEmbeddingDim (embedding c) of
        Inl e \<Rightarrow> (Inl e, d)
      | Inr _ \<Rightarrow>
          (case insert_code_chunks c d of
             (Inl e, d') \<Rightarrow> (Inl e, d')
           | (Inr _, d') \<Rightarrow> insertMany_loop cs d'))"

definition insertMany :: "CodeChunkRow list \<Rightarrow> db \<Rightarrow> (error + unit) \<times> db" where
  "insertMany batch = transaction (insertMany_loop batch)"

text \<open>
  \<open>Array.prototype.slice(start, end)\<close> on integers: a negative index counts from the
  end, and both indices are clamped to the array.
\<close>

definition slice_array :: "'a list \<Rightarrow> int \<Rightarrow> int \<Rightarrow> 'a list" where
  "slice_array xs start fin =
     (let len = int (length xs);
          k = (if start < 0 then max (len + start) 0 else min start len);
          final = (if fin < 0 then max (len + fin) 0 else min fin len)
      in take (nat (final - k)) (drop (nat k) xs))"

text \<open>
  The loop \<open>for (let i = 0; i < chunks.length; i += batchSize)\<close>. It does not end when
  \<open>batchSize\<close> is not positive and there is a chunk, so the result is optional: \<open>None\<close>
  stands for a call that never returns. An error thrown by a batch leaves the loop.
\<close>

partial_function (option) bulkInsertChunks_loop ::
  "CodeChunkRow list \<Rightarrow> int \<Rightarrow> int \<Rightarrow> db \<Rightarrow> ((error + unit) \<times> db) option" where
  "bulkInsertChunks_loop chunks batchSize i d =
     (if i < int (length chunks) then
        (case insertMany (slice_array chunks i (i + batchSize)) d of
           (Inl e, d') \<Rightarrow> Some (Inl e, d')
         | (Inr _, d') \<Rightarrow> bulkInsertChunks_loop chunks batchSize (i + batchSize) d')
      else Some (Inr (), d))"

declare bulkInsertChunks_loop.simps [code]

definition bulkInsertChunks ::
  "CodeChunkRow list \<Rightarrow> int \<Rightarrow> db \<Rightarrow> ((error + unit) \<times> db) option" where
  "bulkInsertChunks chunks batchSize d = bulkInsertChunks_loop chunks batchSize 0 d"

text \<open>
  The partition the specification describes: consecutive batches of \<open>n\<close> records, the
  last one possibly shorter; and running the batches one after the other, each as one
  transaction, up to the first that fails.
\<close>

function batches_of :: "nat \<Rightarrow> 'a list \<Rightarrow> 'a list list" where
  "batches_of n xs = (if n = 0 \<or> xs = [] then [] else take n xs # batches_of n (drop n xs))"
  by pat_completeness auto
termination
  by (relation "measure (\<lambda>(n, xs). length xs)") auto

declare batches_of.simps [simp del]

fun run_batches :: "CodeChunkRow list list \<Rightarrow> db \<Rightarrow> (error + unit) \<times> db" where
  "run_batches [] d = (Inr (), d)"
| "run_batches (b # bs) d =
     (case insertMany b d of
        (Inl e, d') \<Rightarrow> (Inl e, d')
      | (Inr _, d') \<Rightarrow> run_batches bs d')"

text \<open>What a record asks to store, and what a row stores beside its id.\<close>

definition chunk_data :: "CodeChunkRow \<Rightarrow> string \<times> string \<times> string \<times> string option \<times> float32 list" where
  "chunk_data c = (file_name c, file_path c, chunk_text c, inline_document c, embedding c)"

definition row_data :: "row \<Rightarrow> string \<times> string \<times> string \<times> string option \<times> float32 list" where
  "row_data r =
     (col_file_name r, col_file_path r, col_chunk_text r, col_inline_document r, col_embedding r)"

text \<open>The entry of the index that mirrors a row.\<close>

definition mirror_of :: "row \<Rightarrow> int \<times> float32 list" where
  "mirror_of r = (col_id r, col_embedding r)"

subsection \<open>Deleting and replacing a row\<close>

text \<open>
  The module itself never deletes or updates a row, but its triggers react to both.
  \<open>DELETE FROM code_chunks WHERE id = i\<close> removes the rows and fires
  \<open>code_chunks_after_delete\<close> for each of them;
  \<open>UPDATE code_chunks SET file_name = ?, ..., embedding = ? WHERE id = i\<close> replaces the
  columns of the rows and fires \<open>code_chunks_after_update\<close> for each of them. A failure
  inside a trigger undoes the whole statement.
\<close>

definition delete_code_chunks :: "int \<Rightarrow> db \<Rightarrow> (error + unit) \<times> db" where
  "delete_code_chunks i d =
     (let olds = filter (\<lambda>r. col_id r = i) (code_chunks d);
          d1 = d\<lparr>code_chunks := filter (\<lambda>r. col_id r \<noteq> i) (code_chunks d)\<rparr>
      in case exec_vec_stmts (concat (map code_chunks_after_delete olds)) d1 of
           Inl e \<Rightarrow> (Inl e, d)
         | Inr d2 \<Rightarrow> (Inr (), d2))"

definition update_code_chunks :: "int \<Rightarrow> CodeChunkRow \<Rightarrow> db \<Rightarrow> (error + unit) \<times> db" where
  "update_code_chunks i c d =
     (let olds = filter (\<lambda>r. col_id r = i) (code_chunks d);
          new = mk_row i c;
          d1 = d\<lparr>code_chunks := map (\<lambda>r. if col_id r = i then new else r) (code_chunks d)\<rparr>
      in case exec_vec_stmts (concat (map (\<lambda>old. code_chunks_after_update old new) olds)) d1 of
           Inl e \<Rightarrow> (Inl e, d)
         | Inr d2 \<Rightarrow> (Inr (), d2))"

subsection \<open>The correspondence between the two stores\<close>

text \<open>
  Every row has exactly one entry of the index with its id, and that entry holds its
  embedding; every entry of the index has exactly one row with its rowid.
\<close>

definition mirror_bijection :: "db \<Rightarrow> bool" where
  "mirror_bijection d \<longleftrightarrow>
     (\<forall>r \<in> set (code_chunks d).
        length (filter (\<lambda>v. fst v = col_id r) (vec_index d)) = 1 \<and>
        (col_id r, col_embedding r) \<in> set (vec_index d)) \<and>
     (\<forall>v \<in> set (vec_index d).
        length (filter (\<lambda>r. col_id r = fst v) (code_chunks d)) = 1)"

definition consistent :: "db \<Rightarrow> bool" where
  "consistent d \<longleftrightarrow>
     distinct (map col_id (code_chunks d)) \<and> distinct (map fst (vec_index d)) \<and>
     set (vec_index d) = mirror_of ` set (code_chunks d)"

subsection \<open>Establishing the schema\<close>

text \<open>
  What the five \<open>db.exec\<close> calls at module load see and change: whether the table
  \<open>code_chunks\<close> exists, the declared dimension of \<open>vec_index\<close> when it exists, and
  which of the three triggers exist. Each statement carries \<open>IF NOT EXISTS\<close>, so it
  does nothing when its object is present; a trigger on a missing table is an error.
\<close>

record catalog =
  has_code_chunks :: bool
  vec_index_dim :: "nat option"
  has_after_insert :: bool
  has_after_delete :: bool
  has_after_update :: bool

definition create_code_chunks :: "catalog \<Rightarrow> error + catalog" where
  "create_code_chunks c = (if has_code_chunks c then Inr c else Inr (c\<lparr>has_code_chunks := True\<rparr>))"

definition create_vec_index :: "catalog \<Rightarrow> error + catalog" where
  "create_vec_index c =
     (case vec_index_dim c of
        Some n \<Rightarrow> Inr c
      | None \<Rightarrow> Inr (c\<lparr>vec_index_dim := Some EMBEDDING_DIM\<rparr>))"

definition create_after_insert :: "catalog \<Rightarrow> error + catalog" where
  "create_after_insert c =
     (if has_after_insert c then Inr c
      else if has_code_chunks c then Inr (c\<lparr>has_after_insert := True\<rparr>)
      else Inl SQLiteError)"

definition create_after_delete :: "catalog \<Rightarrow> error + catalog" where
  "create_after_delete c =
     (if has_after_delete c then Inr c
      else if has_code_chunks c then Inr (c\<lparr>has_after_delete := True\<rparr>)
      else Inl SQLiteError)"

definition create_after_update :: "catalog \<Rightarrow> error + catalog" where
  "create_after_update c =
     (if has_after_update c then Inr c
      else if has_code_chunks c then Inr (c\<lparr>has_after_update := True\<rparr>)
      else Inl SQLiteError)"

definition and_then :: "error + 'a \<Rightarrow> ('a \<Rightarrow> error + 'b) \<Rightarrow> error + 'b" where
  "and_then r f = (case r of Inl e \<Rightarrow> Inl e | Inr x \<Rightarrow> f x)"

definition ensureSchema :: "catalog \<Rightarrow> error + catalog" where
  "ensureSchema c =
     and_then (and_then (and_then (and_then (create_code_chunks c) create_vec_index)
       create_after_insert) create_after_delete) create_after_update"

section \<open>The embedding wrapper (chopper-grep.ts)\<close>

text \<open>
  \<open>calculateEmbedding\<close> calls the feature-extraction pipeline inside \<open>try\<close>. The
  pipeline is a parameter: for a text it throws (\<open>Inl\<close>) or gives an output whose
  \<open>data\<close> is an array or is missing. \<open>new Float32Array(n)\<close> is \<open>n\<close> zeros. The two
  files that define the function differ in what they do with an array of another length.
\<close>

type_synonym embedding_pipeline = "string \<Rightarrow> error + float32 list option"

definition zero_embedding :: "float32 list" where
  "zero_embedding = replicate EMBEDDING_DIM 0"

text \<open>The older file (part 000): an array of another length throws inside \<open>try\<close>.\<close>

definition try_body_000 :: "embedding_pipeline \<Rightarrow> string \<Rightarrow> error + float32 list" where
  "try_body_000 pipeline text =
     (case pipeline text of
        Inl e \<Rightarrow> Inl e
      | Inr None \<Rightarrow> Inr zero_embedding
      | Inr (Some embeddingArray) \<Rightarrow>
          (if length embeddingArray \<noteq> EMBEDDING_DIM
           then Inl (DimensionMismatch (length embeddingArray))
           else Inr embeddingArray))"

definition calculateEmbedding_000 :: "embedding_pipeline \<Rightarrow> string \<Rightarrow> float32 list" where
  "calculateEmbedding_000 pipeline text =
     (case try_body_000 pipeline text of Inl e \<Rightarrow> zero_embedding | Inr v \<Rightarrow> v)"

text \<open>The newer file (part 001): an array of another length is truncated or padded with zeros.\<close>

definition try_body_001 :: "embedding_pipeline \<Rightarrow> string \<Rightarrow> error + float32 list" where
  "try_body_001 pipeline text =
     (case pipeline text of
        Inl e \<Rightarrow> Inl e
      | Inr None \<Rightarrow> Inr zero_embedding
      | Inr (Some embeddingArray) \<Rightarrow>
          (if length embeddingArray \<noteq> EMBEDDING_DIM
           then (let copyLength = min (length embeddingArray) EMBEDDING_DIM
                 in Inr (take copyLength embeddingArray @ replicate (EMBEDDING_DIM - copyLength) 0))
           else Inr embeddingArray))"

definition calculateEmbedding_001 :: "embedding_pipeline \<Rightarrow> string \<Rightarrow> float32 list" where
  "calculateEmbedding_001 pipeline text =
     (case try_body_001 pipeline text of Inl e \<Rightarrow> zero_embedding | Inr v \<Rightarrow> v)"

section \<open>Sample data\<close>

definition sample_chunk :: "string \<Rightarrow> float32 list \<Rightarrow> CodeChunkRow" where
  "sample_chunk name e =
     \<lparr>id_opt = None, file_name = name, file_path = ''src/'' @ name,
      chunk_text = ''export function close() {}'', inline_document = None, embedding = e\<rparr>"

definition short_chunk :: CodeChunkRow where
  "short_chunk = sample_chunk ''short.ts'' [0, 0, 0]"

definition zero_chunk :: CodeChunkRow where
  "zero_chunk = sample_chunk ''zero.ts'' (replicate 384 0)"

text \<open>Vectors of 384 times 1.0 and 384 times 2.0, as bit patterns.\<close>

definition ones_chunk :: CodeChunkRow where
  "ones_chunk = sample_chunk ''ones.ts'' (replicate 384 0x3F800000)"



text \<open>
  Three scores: every entry at 0; the difference of the first components, read as
  unsigned numbers; and a score with the two effects of a cosine computed in floating
  point, NULL (from a NaN) for a stored vector that starts with zero, as the all-zero
  vector does, and a number just below 0 for any other.
\<close>

definition zero_score :: "float32 list \<Rightarrow> float32 list \<Rightarrow> real option" where
  "zero_score a q = Some 0"



definition zero_knn :: knn_engine where
  "zero_knn = scan_knn 384 zero_score"

text \<open>
  A database with one valid row; one with three (twos, zeros, ones, in that order); one
  whose index holds an entry without a row; and an empty one whose index was declared
  with 128 dimensions.
\<close>

definition one_row_db :: db where
  "one_row_db = snd (insertChunk zero_chunk empty_db)"



definition orphan_db :: db where
  "orphan_db = empty_db\<lparr>vec_index := [(7, replicate 384 0)]\<rparr>"

text \<open>A catalog left by a run that declared the index with 128 dimensions.\<close>

definition catalog_128 :: catalog where
  "catalog_128 =
     \<lparr>has_code_chunks = True, vec_index_dim = Some 128, has_after_insert = True,
      has_after_delete = True, has_after_update = True\<rparr>"

section \<open>The dimension check\<close>

lemma assertEmbeddingDim_bad:
  "length arr \<noteq> EMBEDDING_DIM \<Longrightarrow> assertEmbeddingDim arr = Inl (DimensionMismatch (length arr))"
  by (simp add: assertEmbeddingDim_def)

lemma assertEmbeddingDim_good:
  "length arr = EMBEDDING_DIM \<Longrightarrow> assertEmbeddingDim arr = Inr ()"
  by (simp add: assertEmbeddingDim_def)

lemma exec_vec_stmt_error: "exec_vec_stmt s d = Inl e \<Longrightarrow> e = SQLiteError"
  by (cases s) (auto split: if_splits)

lemma insert_code_chunks_error: "fst (insert_code_chunks c d) = Inl e \<Longrightarrow> e = SQLiteError"
  by (auto simp: insert_code_chunks_def code_chunks_after_insert_def Let_def
           split: sum.splits if_splits)

text \<open>
  Claim C1. An embedding whose length is not 384 makes \<open>insertChunk\<close> fail with the
  dimension error and leave the database as it was, and makes \<open>searchSimilar\<close> fail with
  the dimension error; an embedding of length 384 never makes either fail with that error.
\<close>

theorem dimension_check:
  "EMBEDDING_DIM = 384 \<and>
   (length (embedding c) \<noteq> EMBEDDING_DIM \<longrightarrow>
      insertChunk c d = (Inl (DimensionMismatch (length (embedding c))), d)) \<and>
   (length q \<noteq> EMBEDDING_DIM \<longrightarrow>
      searchSimilar knn q k d = Inl (DimensionMismatch (length q))) \<and>
   (length (embedding c) = EMBEDDING_DIM \<longrightarrow>
      (\<forall>n. fst (insertChunk c d) \<noteq> Inl (DimensionMismatch n))) \<and>
   (length q = EMBEDDING_DIM \<longrightarrow>
      (\<forall>n. searchSimilar knn q k d \<noteq> Inl (DimensionMismatch n)))"
proof -
  have a: "EMBEDDING_DIM = 384"
    by (simp add: EMBEDDING_DIM_def)
  have b: "insertChunk c d = (Inl (DimensionMismatch (length (embedding c))), d)"
    if "length (embedding c) \<noteq> EMBEDDING_DIM"
    using that by (simp add: insertChunk_def assertEmbeddingDim_bad)
  have s: "searchSimilar knn q k d = Inl (DimensionMismatch (length q))"
    if "length q \<noteq> EMBEDDING_DIM"
    using that by (simp add: searchSimilar_def assertEmbeddingDim_bad)
  have g: "fst (insertChunk c d) \<noteq> Inl (DimensionMismatch n)"
    if "length (embedding c) = EMBEDDING_DIM" for n
  proof
    assume "fst (insertChunk c d) = Inl (DimensionMismatch n)"
    with that have "fst (insert_code_chunks c d) = Inl (DimensionMismatch n)"
      by (simp add: insertChunk_def assertEmbeddingDim_good)
    then show False
      using insert_code_chunks_error by blast
  qed
  have h: "searchSimilar knn q k d \<noteq> Inl (DimensionMismatch n)"
    if "length q = EMBEDDING_DIM" for n
    using that by (simp add: searchSimilar_def assertEmbeddingDim_good split: option.splits)
  from a b s g h show ?thesis
    by blast
qed

lemma zero_chunk_valid: "length (embedding zero_chunk) = EMBEDDING_DIM"
  by (simp add: zero_chunk_def sample_chunk_def EMBEDDING_DIM_def)

lemma short_chunk_invalid: "length (embedding short_chunk) = 3"
  by (simp add: short_chunk_def sample_chunk_def)

theorem dimension_check_witness:
  "insertChunk short_chunk empty_db = (Inl (DimensionMismatch 3), empty_db) \<and>
   searchSimilar zero_knn [0, 0, 0] 5 empty_db = Inl (DimensionMismatch 3) \<and>
   fst (insertChunk zero_chunk empty_db) \<noteq> Inl (DimensionMismatch 384) \<and>
   searchSimilar zero_knn (replicate 384 0) 5 empty_db \<noteq> Inl (DimensionMismatch 384)"
  using dimension_check [of short_chunk empty_db "[0, 0, 0]" zero_knn 5]
    dimension_check [of zero_chunk empty_db "replicate 384 0" zero_knn 5]
    zero_chunk_valid short_chunk_invalid
  by simp

text \<open>
  Claim C10. For a record whose embedding has not 384 components, \<open>insertChunk\<close> throws
  at the check, before a statement is prepared or run: the table, the index and the
  counter are those of before.
\<close>

theorem insertChunk_rejects_unchanged:
  "length (embedding c) \<noteq> EMBEDDING_DIM \<Longrightarrow>
     fst (insertChunk c d) = Inl (DimensionMismatch (length (embedding c))) \<and>
     code_chunks (snd (insertChunk c d)) = code_chunks d \<and>
     vec_index (snd (insertChunk c d)) = vec_index d \<and>
     snd (insertChunk c d) = d"
  by (simp add: insertChunk_def assertEmbeddingDim_def)

theorem insertChunk_rejects_unchanged_witness:
  "length (embedding short_chunk) \<noteq> EMBEDDING_DIM \<and>
   fst (insertChunk short_chunk one_row_db) = Inl (DimensionMismatch 3) \<and>
   snd (insertChunk short_chunk one_row_db) = one_row_db"
  using insertChunk_rejects_unchanged [of short_chunk one_row_db] short_chunk_invalid
  by (simp add: EMBEDDING_DIM_def)

section \<open>The embedding wrapper never fails\<close>

lemma length_zero_embedding: "length zero_embedding = EMBEDDING_DIM"
  by (simp add: zero_embedding_def)

text \<open>
  Claim C9. When the pipeline throws for a text, \<open>calculateEmbedding\<close> (in both files)
  catches the error and returns 384 zeros.
\<close>

theorem calculateEmbedding_fallback:
  "pipeline text = Inl e \<Longrightarrow>
     calculateEmbedding_000 pipeline text = replicate 384 0 \<and>
     calculateEmbedding_001 pipeline text = replicate 384 0 \<and>
     length (calculateEmbedding_000 pipeline text) = EMBEDDING_DIM \<and>
     length (calculateEmbedding_001 pipeline text) = EMBEDDING_DIM"
  by (simp add: calculateEmbedding_000_def calculateEmbedding_001_def try_body_000_def
        try_body_001_def zero_embedding_def EMBEDDING_DIM_def)

theorem calculateEmbedding_fallback_witness:
  "calculateEmbedding_000 (\<lambda>t. Inl PipelineError) ''let x'' = replicate 384 0 \<and>
   calculateEmbedding_001 (\<lambda>t. Inl PipelineError) ''let x'' = replicate 384 0"
  using calculateEmbedding_fallback [of "\<lambda>t. Inl PipelineError" "''let x''" PipelineError]
  by simp

section \<open>Batches and transactions\<close>

lemma slice_batch:
  assumes "0 \<le> i" "i < int (length xs)" "0 < b"
  shows "slice_array xs i (i + b) = take (nat b) (drop (nat i) xs)"
proof -
  have k: "min i (int (length xs)) = i"
    using assms by simp
  have "take (nat (min (i + b) (int (length xs)) - i)) (drop (nat i) xs) =
        take (nat b) (drop (nat i) xs)"
  proof (cases "i + b \<le> int (length xs)")
    case True
    then show ?thesis by (simp add: min_def)
  next
    case False
    then have "length (drop (nat i) xs) \<le> nat (int (length xs) - i)"
      and "length (drop (nat i) xs) \<le> nat b"
      using assms by auto
    then show ?thesis
      using False by (simp add: min_def)
  qed
  then show ?thesis
    using assms by (simp add: slice_array_def Let_def k)
qed

lemma batches_of_concat: "0 < n \<Longrightarrow> concat (batches_of n xs) = xs"
proof (induction n xs rule: batches_of.induct)
  case (1 n xs)
  then show ?case
    by (subst batches_of.simps) auto
qed


lemma bulkInsertChunks_loop_run:
  assumes "0 < b"
  shows "0 \<le> i \<Longrightarrow>
    bulkInsertChunks_loop cs b i d = Some (run_batches (batches_of (nat b) (drop (nat i) cs)) d)"
proof (induction "length cs - nat i" arbitrary: i d rule: less_induct)
  case less
  show ?case
  proof (cases "i < int (length cs)")
    case False
    then have "drop (nat i) cs = []"
      using less.prems by simp
    then have "batches_of (nat b) (drop (nat i) cs) = []"
      by (simp add: batches_of.simps)
    then show ?thesis
      using False by (subst bulkInsertChunks_loop.simps) simp
  next
    case True
    then have ne: "drop (nat i) cs \<noteq> []"
      using less.prems by simp
    have sl: "slice_array cs i (i + b) = take (nat b) (drop (nat i) cs)"
      using slice_batch less.prems True assms by blast
    have nn: "nat b + nat i = nat (i + b)"
      using less.prems assms by linarith
    have dr: "drop (nat b) (drop (nat i) cs) = drop (nat (i + b)) cs"
      by (simp only: drop_drop nn)
    have bt: "batches_of (nat b) (drop (nat i) cs) =
        take (nat b) (drop (nat i) cs) # batches_of (nat b) (drop (nat (i + b)) cs)"
      using ne assms by (subst batches_of.simps) (simp only: dr, simp)
    have ih: "bulkInsertChunks_loop cs b (i + b) d' =
        Some (run_batches (batches_of (nat b) (drop (nat (i + b)) cs)) d')" for d'
    proof (rule less.hyps)
      show "length cs - nat (i + b) < length cs - nat i"
        using True less.prems assms by linarith
      show "0 \<le> i + b"
        using less.prems assms by simp
    qed
    show ?thesis
      using True
      by (subst bulkInsertChunks_loop.simps) (simp add: sl bt ih split: prod.splits sum.splits)
  qed
qed




lemma foldr_max_ge: "x \<in> set xs \<Longrightarrow> x \<le> foldr max xs (s::int)"
  by (induction xs) auto

lemma next_rowid_fresh: "r \<in> set (code_chunks d) \<Longrightarrow> col_id r < next_rowid d"
proof -
  assume "r \<in> set (code_chunks d)"
  then have "col_id r \<in> set (map col_id (code_chunks d))"
    by simp
  then have "col_id r \<le> foldr max (map col_id (code_chunks d)) (sqlite_sequence d)"
    by (rule foldr_max_ge)
  then show ?thesis
    by (simp add: next_rowid_def)
qed

lemma insert_code_chunks_eq:
  "insert_code_chunks c d =
     (if length (embedding c) \<noteq> vec_dim d \<or> next_rowid d \<in> set (map fst (vec_index d))
      then (Inl SQLiteError, d)
      else (Inr (next_rowid d),
            d\<lparr>code_chunks := code_chunks d @ [mk_row (next_rowid d) c],
              sqlite_sequence := next_rowid d,
              vec_index := vec_index d @ [(next_rowid d, embedding c)]\<rparr>))"
  by (simp add: insert_code_chunks_def code_chunks_after_insert_def Let_def mk_row_def
        float32ToBuffer_def)

lemma consistent_ids: "consistent d \<Longrightarrow> fst ` set (vec_index d) = col_id ` set (code_chunks d)"
  by (force simp: consistent_def mirror_of_def)

lemma consistent_fresh:
  assumes "consistent d"
  shows "next_rowid d \<notin> set (map fst (vec_index d))"
proof
  assume "next_rowid d \<in> set (map fst (vec_index d))"
  then have "next_rowid d \<in> col_id ` set (code_chunks d)"
    using consistent_ids [OF assms] by simp
  then obtain r where "r \<in> set (code_chunks d)" "col_id r = next_rowid d"
    by auto
  then show False
    using next_rowid_fresh [of r d] by simp
qed

lemma insert_code_chunks_consistent:
  assumes "consistent d"
  shows "consistent (snd (insert_code_chunks c d))"
proof (cases "length (embedding c) \<noteq> vec_dim d \<or> next_rowid d \<in> set (map fst (vec_index d))")
  case True
  then show ?thesis
    using assms by (simp add: insert_code_chunks_eq)
next
  case False
  have f1: "next_rowid d \<notin> col_id ` set (code_chunks d)"
    using next_rowid_fresh [of _ d] by force
  have f2: "next_rowid d \<notin> fst ` set (vec_index d)"
    using consistent_fresh [OF assms] by simp
  show ?thesis
    using assms False f1 f2
    by (simp add: insert_code_chunks_eq consistent_def mirror_of_def mk_row_def float32ToBuffer_def)
qed

lemma insert_code_chunks_vec_dim: "vec_dim (snd (insert_code_chunks c d)) = vec_dim d"
  by (simp add: insert_code_chunks_eq)

lemma insert_code_chunks_valid:
  assumes "consistent d" "vec_dim d = EMBEDDING_DIM" "length (embedding c) = EMBEDDING_DIM"
  shows "fst (insert_code_chunks c d) = Inr (next_rowid d)"
  using assms consistent_fresh [OF assms(1)] by (simp add: insert_code_chunks_eq)

lemma insertMany_loop_consistent:
  "consistent d \<Longrightarrow> consistent (snd (insertMany_loop b d))"
proof (induction b arbitrary: d)
  case Nil
  then show ?case by simp
next
  case (Cons c cs)
  have "consistent (snd (insert_code_chunks c d))"
    using Cons.prems by (rule insert_code_chunks_consistent)
  then show ?case
    using Cons.prems Cons.IH [of "snd (insert_code_chunks c d)"]
    by (auto split: sum.splits prod.splits)
qed

lemma insertMany_loop_vec_dim: "vec_dim (snd (insertMany_loop b d)) = vec_dim d"
proof (induction b arbitrary: d)
  case Nil
  then show ?case by simp
next
  case (Cons c cs)
  show ?case
    using Cons.IH [of "snd (insert_code_chunks c d)"] insert_code_chunks_vec_dim [of c d]
    by (auto split: sum.splits prod.splits)
qed

lemma insertMany_loop_valid:
  "consistent d \<Longrightarrow> vec_dim d = EMBEDDING_DIM \<Longrightarrow>
   \<forall>c \<in> set b. length (embedding c) = EMBEDDING_DIM \<Longrightarrow>
   fst (insertMany_loop b d) = Inr ()"
proof (induction b arbitrary: d)
  case Nil
  then show ?case by simp
next
  case (Cons c cs)
  let ?d1 = "snd (insert_code_chunks c d)"
  have ok: "fst (insert_code_chunks c d) = Inr (next_rowid d)"
    using Cons.prems by (simp add: insert_code_chunks_valid)
  have "consistent ?d1" "vec_dim ?d1 = EMBEDDING_DIM"
    using Cons.prems by (simp_all add: insert_code_chunks_consistent insert_code_chunks_vec_dim)
  then have "fst (insertMany_loop cs ?d1) = Inr ()"
    using Cons.prems by (intro Cons.IH) simp_all
  then show ?case
    using ok Cons.prems
    by (cases "insert_code_chunks c d") (simp add: assertEmbeddingDim_good)
qed

lemma insertMany_consistent: "consistent d \<Longrightarrow> consistent (snd (insertMany b d))"
  using insertMany_loop_consistent [of d b]
  by (auto simp: insertMany_def transaction_def split: prod.splits sum.splits)

lemma insertMany_vec_dim: "vec_dim (snd (insertMany b d)) = vec_dim d"
  using insertMany_loop_vec_dim [of b d]
  by (auto simp: insertMany_def transaction_def split: prod.splits sum.splits)

lemma insertMany_valid:
  "consistent d \<Longrightarrow> vec_dim d = EMBEDDING_DIM \<Longrightarrow>
   \<forall>c \<in> set b. length (embedding c) = EMBEDDING_DIM \<Longrightarrow>
   fst (insertMany b d) = Inr ()"
  using insertMany_loop_valid [of d b]
  by (auto simp: insertMany_def transaction_def split: prod.splits sum.splits)

lemma run_batches_consistent: "consistent d \<Longrightarrow> consistent (snd (run_batches bs d))"
proof (induction bs arbitrary: d)
  case Nil
  then show ?case by simp
next
  case (Cons b bs)
  show ?case
    using Cons.IH [of "snd (insertMany b d)"] insertMany_consistent [OF Cons.prems, of b]
    by (auto split: prod.splits sum.splits)
qed

lemma run_batches_valid:
  "consistent d \<Longrightarrow> vec_dim d = EMBEDDING_DIM \<Longrightarrow>
   \<forall>b \<in> set bs. \<forall>c \<in> set b. length (embedding c) = EMBEDDING_DIM \<Longrightarrow>
   fst (run_batches bs d) = Inr ()"
proof (induction bs arbitrary: d)
  case Nil
  then show ?case by simp
next
  case (Cons b bs)
  let ?d1 = "snd (insertMany b d)"
  have ok: "fst (insertMany b d) = Inr ()"
    using Cons.prems by (simp add: insertMany_valid)
  have "consistent ?d1" "vec_dim ?d1 = EMBEDDING_DIM"
    using Cons.prems by (simp_all add: insertMany_consistent insertMany_vec_dim)
  then have "fst (run_batches bs ?d1) = Inr ()"
    using Cons.prems by (intro Cons.IH) simp_all
  then show ?case
    using ok by (cases "insertMany b d") simp
qed

section \<open>Deletion, replacement and the correspondence\<close>

lemma exec_delete_triggers:
  "\<forall>r \<in> set olds. col_id r = i \<Longrightarrow> olds \<noteq> [] \<Longrightarrow>
   exec_vec_stmts (concat (map code_chunks_after_delete olds)) d =
     Inr (d\<lparr>vec_index := filter (\<lambda>v. fst v \<noteq> i) (vec_index d)\<rparr>)"
proof (induction olds arbitrary: d)
  case Nil
  then show ?case by simp
next
  case (Cons a olds)
  show ?case
  proof (cases "olds = []")
    case True
    then show ?thesis
      using Cons.prems by (simp add: code_chunks_after_delete_def)
  next
    case False
    then show ?thesis
      using Cons.prems Cons.IH [of "d\<lparr>vec_index := filter (\<lambda>v. fst v \<noteq> i) (vec_index d)\<rparr>"]
      by (simp add: code_chunks_after_delete_def)
  qed
qed

lemma filter_none: "i \<notin> f ` set xs \<Longrightarrow> filter (\<lambda>r. f r \<noteq> i) xs = xs"
  by (induction xs) auto

lemma filter_none_eq: "i \<notin> f ` set xs \<Longrightarrow> filter (\<lambda>r. f r = i) xs = []"
  by (induction xs) auto

lemma filter_some_eq: "i \<in> f ` set xs \<Longrightarrow> filter (\<lambda>r. f r = i) xs \<noteq> []"
  by (induction xs) auto

lemma delete_code_chunks_eq:
  "delete_code_chunks i d =
     (Inr (),
      if i \<in> col_id ` set (code_chunks d)
      then d\<lparr>code_chunks := filter (\<lambda>r. col_id r \<noteq> i) (code_chunks d),
             vec_index := filter (\<lambda>v. fst v \<noteq> i) (vec_index d)\<rparr>
      else d)"
proof (cases "i \<in> col_id ` set (code_chunks d)")
  case True
  let ?olds = "filter (\<lambda>r. col_id r = i) (code_chunks d)"
  let ?d1 = "d\<lparr>code_chunks := filter (\<lambda>r. col_id r \<noteq> i) (code_chunks d)\<rparr>"
  have "exec_vec_stmts (concat (map code_chunks_after_delete ?olds)) ?d1 =
        Inr (?d1\<lparr>vec_index := filter (\<lambda>v. fst v \<noteq> i) (vec_index ?d1)\<rparr>)"
    using True by (intro exec_delete_triggers) (simp_all add: filter_some_eq)
  then show ?thesis
    using True by (simp add: delete_code_chunks_def Let_def)
next
  case False
  then show ?thesis
    by (simp add: delete_code_chunks_def Let_def filter_none filter_none_eq)
qed

lemma exec_update_triggers:
  "\<forall>r \<in> set olds. col_id r = i \<Longrightarrow> olds \<noteq> [] \<Longrightarrow> col_id new = i \<Longrightarrow>
   exec_vec_stmts (concat (map (\<lambda>old. code_chunks_after_update old new) olds)) d =
     (if length (col_embedding new) \<noteq> vec_dim d then Inl SQLiteError
      else Inr (d\<lparr>vec_index := filter (\<lambda>v. fst v \<noteq> i) (vec_index d) @ [(i, col_embedding new)]\<rparr>))"
proof (induction olds arbitrary: d)
  case Nil
  then show ?case by simp
next
  case (Cons a olds)
  show ?case
  proof (cases "olds = []")
    case True
    have "i \<notin> fst ` {x \<in> set (vec_index d). fst x \<noteq> i}"
      by auto
    then show ?thesis
      using True Cons.prems by (simp add: code_chunks_after_update_def)
  next
    case False
    have "i \<notin> fst ` {x \<in> set (vec_index d). fst x \<noteq> i}"
      by auto
    then show ?thesis
      using False Cons.prems
        Cons.IH [of "d\<lparr>vec_index := filter (\<lambda>v. fst v \<noteq> i) (vec_index d) @ [(i, col_embedding new)]\<rparr>"]
      by (simp add: code_chunks_after_update_def)
  qed
qed

lemma map_replace_none: "i \<notin> f ` set xs \<Longrightarrow> map (\<lambda>r. if f r = i then new else r) xs = xs"
  by (induction xs) auto

lemma update_code_chunks_eq:
  "update_code_chunks i c d =
     (if i \<notin> col_id ` set (code_chunks d) then (Inr (), d)
      else if length (embedding c) \<noteq> vec_dim d then (Inl SQLiteError, d)
      else (Inr (),
            d\<lparr>code_chunks := map (\<lambda>r. if col_id r = i then mk_row i c else r) (code_chunks d),
              vec_index := filter (\<lambda>v. fst v \<noteq> i) (vec_index d) @ [(i, embedding c)]\<rparr>))"
proof (cases "i \<in> col_id ` set (code_chunks d)")
  case True
  let ?olds = "filter (\<lambda>r. col_id r = i) (code_chunks d)"
  let ?new = "mk_row i c"
  let ?d1 = "d\<lparr>code_chunks := map (\<lambda>r. if col_id r = i then ?new else r) (code_chunks d)\<rparr>"
  have n: "col_id ?new = i" "col_embedding ?new = embedding c"
    by (simp_all add: mk_row_def float32ToBuffer_def)
  have "exec_vec_stmts (concat (map (\<lambda>old. code_chunks_after_update old ?new) ?olds)) ?d1 =
     (if length (col_embedding ?new) \<noteq> vec_dim ?d1 then Inl SQLiteError
      else Inr (?d1\<lparr>vec_index := filter (\<lambda>v. fst v \<noteq> i) (vec_index ?d1) @ [(i, col_embedding ?new)]\<rparr>))"
    using True n by (intro exec_update_triggers) (simp_all add: filter_some_eq)
  then show ?thesis
    using True n by (simp add: update_code_chunks_def Let_def)
next
  case False
  then show ?thesis
    by (simp add: update_code_chunks_def Let_def map_replace_none filter_none_eq)
qed

lemma delete_code_chunks_consistent:
  assumes "consistent d"
  shows "consistent (snd (delete_code_chunks i d))"
proof (cases "i \<in> col_id ` set (code_chunks d)")
  case False
  then show ?thesis
    using assms by (simp add: delete_code_chunks_eq)
next
  case True
  have "set (filter (\<lambda>v. fst v \<noteq> i) (vec_index d)) =
        mirror_of ` set (filter (\<lambda>r. col_id r \<noteq> i) (code_chunks d))"
    using assms by (auto simp: consistent_def mirror_of_def)
  then show ?thesis
    using assms True by (simp add: delete_code_chunks_eq consistent_def mirror_of_def distinct_map_filter)
qed

lemma update_code_chunks_consistent:
  assumes "consistent d"
  shows "consistent (snd (update_code_chunks i c d))"
proof (cases "i \<in> col_id ` set (code_chunks d) \<and> length (embedding c) = vec_dim d")
  case False
  then show ?thesis
    using assms by (auto simp: update_code_chunks_eq)
next
  case True
  let ?new = "mk_row i c"
  let ?rows = "map (\<lambda>r. if col_id r = i then ?new else r) (code_chunks d)"
  let ?vec = "filter (\<lambda>v. fst v \<noteq> i) (vec_index d) @ [(i, embedding c)]"
  have n: "col_id ?new = i" "col_embedding ?new = embedding c"
    by (simp_all add: mk_row_def float32ToBuffer_def)
  have ids: "map col_id ?rows = map col_id (code_chunks d)"
    using n by (induction "code_chunks d") auto
  have d1: "distinct (map col_id ?rows)"
    using assms by (simp only: ids) (simp add: consistent_def mirror_of_def)
  have d2: "distinct (map fst ?vec)"
    using assms by (auto simp: consistent_def mirror_of_def distinct_map_filter)
  have "set ?rows = {r \<in> set (code_chunks d). col_id r \<noteq> i} \<union> {?new}"
    using True by auto
  then have "mirror_of ` set ?rows =
        {v \<in> set (vec_index d). fst v \<noteq> i} \<union> {(i, embedding c)}"
    using assms n by (auto simp: consistent_def mirror_of_def)
  then have s: "set ?vec = mirror_of ` set ?rows"
    by auto
  show ?thesis
    using True d1 d2 s by (simp add: update_code_chunks_eq consistent_def mirror_of_def)
qed

lemma count_one_distinct:
  "distinct (map f xs) \<longleftrightarrow> (\<forall>x \<in> set xs. length (filter (\<lambda>y. f y = f x) xs) = 1)"
proof (induction xs)
  case Nil
  then show ?case by simp
next
  case (Cons a xs)
  show ?case
  proof
    assume d: "distinct (map f (a # xs))"
    then have "f a \<notin> f ` set xs"
      by simp
    then have "filter (\<lambda>y. f y = f a) xs = []"
      by (rule filter_none_eq)
    moreover have "length (filter (\<lambda>y. f y = f x) xs) = 1" if "x \<in> set xs" for x
      using d Cons.IH that by simp
    moreover have "f a \<noteq> f x" if "x \<in> set xs" for x
    proof -
      from d have "f a \<notin> f ` set xs"
        by simp
      then show ?thesis
        using that by (metis image_eqI)
    qed
    ultimately show "\<forall>x \<in> set (a # xs). length (filter (\<lambda>y. f y = f x) (a # xs)) = 1"
      by auto
  next
    assume c: "\<forall>x \<in> set (a # xs). length (filter (\<lambda>y. f y = f x) (a # xs)) = 1"
    then have "filter (\<lambda>y. f y = f a) xs = []"
      by simp
    then have "\<forall>y \<in> set xs. f y \<noteq> f a"
      by (simp add: filter_empty_conv)
    then have a: "f a \<notin> f ` set xs"
      by force
    have "length (filter (\<lambda>y. f y = f x) xs) = 1" if "x \<in> set xs" for x
    proof -
      have "f x \<noteq> f a"
        using a that by (metis image_eqI)
      moreover have "length (filter (\<lambda>y. f y = f x) (a # xs)) = 1"
        using c that by simp
      ultimately show ?thesis
        by (simp split: if_splits)
    qed
    then show "distinct (map f (a # xs))"
      using a Cons.IH by simp
  qed
qed

lemma consistent_mirror: "consistent d \<longleftrightarrow> mirror_bijection d"
proof
  assume c: "consistent d"
  have "length (filter (\<lambda>v. fst v = col_id r) (vec_index d)) = 1"
    "(col_id r, col_embedding r) \<in> set (vec_index d)" if "r \<in> set (code_chunks d)" for r
  proof -
    show m: "(col_id r, col_embedding r) \<in> set (vec_index d)"
      using c that by (auto simp: consistent_def mirror_of_def)
    have "distinct (map fst (vec_index d))"
      using c by (simp add: consistent_def mirror_of_def)
    then show "length (filter (\<lambda>v. fst v = col_id r) (vec_index d)) = 1"
      using m count_one_distinct [of fst "vec_index d"] by fastforce
  qed
  moreover have "length (filter (\<lambda>r. col_id r = fst v) (code_chunks d)) = 1"
    if "v \<in> set (vec_index d)" for v
  proof -
    from c have "set (vec_index d) = mirror_of ` set (code_chunks d)"
      by (simp add: consistent_def)
    with that have "v \<in> mirror_of ` set (code_chunks d)"
      by simp
    then obtain r where r: "r \<in> set (code_chunks d)" "fst v = col_id r"
      by (auto simp: mirror_of_def)
    have "distinct (map col_id (code_chunks d))"
      using c by (simp add: consistent_def mirror_of_def)
    then show ?thesis
      using r count_one_distinct [of col_id "code_chunks d"] by fastforce
  qed
  ultimately show "mirror_bijection d"
    by (simp add: mirror_bijection_def)
next
  assume m: "mirror_bijection d"
  have rv: "(col_id r, col_embedding r) \<in> set (vec_index d)"
    "length (filter (\<lambda>v. fst v = col_id r) (vec_index d)) = 1"
    if "r \<in> set (code_chunks d)" for r
    using m that by (simp_all add: mirror_bijection_def)
  have vr: "length (filter (\<lambda>r. col_id r = fst v) (code_chunks d)) = 1"
    if "v \<in> set (vec_index d)" for v
    using m that by (simp add: mirror_bijection_def)
  have d1: "distinct (map col_id (code_chunks d))"
    unfolding count_one_distinct
  proof
    fix r assume "r \<in> set (code_chunks d)"
    then have "(col_id r, col_embedding r) \<in> set (vec_index d)"
      by (rule rv)
    from vr [OF this] show "length (filter (\<lambda>y. col_id y = col_id r) (code_chunks d)) = 1"
      by simp
  qed
  have ex: "\<exists>r \<in> set (code_chunks d). col_id r = fst v" if "v \<in> set (vec_index d)" for v
  proof -
    have "filter (\<lambda>r. col_id r = fst v) (code_chunks d) \<noteq> []"
      using vr [OF that] by auto
    then show ?thesis
      by (auto simp: filter_empty_conv)
  qed
  have d2: "distinct (map fst (vec_index d))"
    unfolding count_one_distinct
  proof
    fix v assume "v \<in> set (vec_index d)"
    then obtain r where "r \<in> set (code_chunks d)" "col_id r = fst v"
      using ex by blast
    then show "length (filter (\<lambda>y. fst y = fst v) (vec_index d)) = 1"
      using rv(2) [of r] by simp
  qed
  have "v \<in> mirror_of ` set (code_chunks d)"
    if v: "v \<in> set (vec_index d)" for v
  proof -
    obtain r where r: "r \<in> set (code_chunks d)" "col_id r = fst v"
      using ex v by blast
    have "(col_id r, col_embedding r) \<in> set (vec_index d)"
      using r(1) by (rule rv(1))
    then have "(col_id r, col_embedding r) = v"
      using d2 v r(2) by (metis eq_key_imp_eq_value prod.collapse)
    then show ?thesis
      using r by (force simp: mirror_of_def)
  qed
  then have "set (vec_index d) = mirror_of ` set (code_chunks d)"
    using rv by (auto simp: mirror_of_def)
  then show "consistent d"
    using d1 d2 by (simp add: consistent_def mirror_of_def)
qed

section \<open>What a batch stores\<close>

lemma row_data_mk_row: "row_data (mk_row i c) = chunk_data c"
  by (simp add: row_data_def mk_row_def chunk_data_def float32ToBuffer_def)

lemma mirror_of_mk_row: "mirror_of (mk_row i c) = (i, embedding c)"
  by (simp add: mirror_of_def mk_row_def float32ToBuffer_def)

lemma insertMany_loop_stored:
  "insertMany_loop b d = (Inr u, d') \<Longrightarrow>
   \<exists>new. code_chunks d' = code_chunks d @ new \<and>
         vec_index d' = vec_index d @ map mirror_of new \<and>
         map row_data new = map chunk_data b"
proof (induction b arbitrary: d)
  case Nil
  then show ?case by simp
next
  case (Cons c cs)
  let ?i = "next_rowid d"
  let ?d1 = "d\<lparr>code_chunks := code_chunks d @ [mk_row ?i c], sqlite_sequence := ?i,
               vec_index := vec_index d @ [(?i, embedding c)]\<rparr>"
  from Cons.prems have ok: "insert_code_chunks c d = (Inr ?i, ?d1)"
    by (auto simp: insert_code_chunks_eq split: sum.splits if_splits)
  with Cons.prems have "insertMany_loop cs ?d1 = (Inr u, d')"
    by (auto split: sum.splits)
  from Cons.IH [OF this] obtain new where
    n: "code_chunks d' = code_chunks ?d1 @ new" "vec_index d' = vec_index ?d1 @ map mirror_of new"
       "map row_data new = map chunk_data cs"
    by blast
  have "code_chunks d' = code_chunks d @ (mk_row ?i c # new)"
    "vec_index d' = vec_index d @ map mirror_of (mk_row ?i c # new)"
    "map row_data (mk_row ?i c # new) = map chunk_data (c # cs)"
    using n by (simp_all add: row_data_mk_row mirror_of_mk_row)
  then show ?case
    by blast
qed

lemma insertMany_cases:
  "(\<exists>e. insertMany b d = (Inl e, d)) \<or>
   (\<exists>d' new. insertMany b d = (Inr (), d') \<and> code_chunks d' = code_chunks d @ new \<and>
        vec_index d' = vec_index d @ map mirror_of new \<and> map row_data new = map chunk_data b)"
proof (cases "insertMany_loop b d")
  case (Pair r d')
  show ?thesis
  proof (cases r)
    case (Inl e)
    then show ?thesis
      using Pair by (simp add: insertMany_def transaction_def)
  next
    case (Inr u)
    then have "insertMany b d = (Inr (), d')"
      using Pair by (simp add: insertMany_def transaction_def)
    then show ?thesis
      using insertMany_loop_stored [of b d u d'] Pair Inr by auto
  qed
qed

lemma run_batches_stored:
  "run_batches bs d = (Inr u, d') \<Longrightarrow>
   \<exists>new. code_chunks d' = code_chunks d @ new \<and>
         vec_index d' = vec_index d @ map mirror_of new \<and>
         map row_data new = map chunk_data (concat bs)"
proof (induction bs arbitrary: d)
  case Nil
  then show ?case by simp
next
  case (Cons b bs)
  from Cons.prems obtain d1 where b: "insertMany b d = (Inr (), d1)"
    and r: "run_batches bs d1 = (Inr u, d')"
    by (auto split: prod.splits sum.splits)
  from insertMany_cases [of b d] b obtain new1 where
    n1: "code_chunks d1 = code_chunks d @ new1" "vec_index d1 = vec_index d @ map mirror_of new1"
        "map row_data new1 = map chunk_data b"
    by auto
  from Cons.IH [OF r] obtain new2 where
    n2: "code_chunks d' = code_chunks d1 @ new2" "vec_index d' = vec_index d1 @ map mirror_of new2"
        "map row_data new2 = map chunk_data (concat bs)"
    by blast
  have "code_chunks d' = code_chunks d @ (new1 @ new2)"
    "vec_index d' = vec_index d @ map mirror_of (new1 @ new2)"
    "map row_data (new1 @ new2) = map chunk_data (concat (b # bs))"
    using n1 n2 by simp_all
  then show ?case
    by blast
qed

lemma bulkInsertChunks_run:
  "0 < n \<Longrightarrow> bulkInsertChunks cs n d = Some (run_batches (batches_of (nat n) cs) d)"
  using bulkInsertChunks_loop_run [of n 0 cs d] by (simp add: bulkInsertChunks_def)

lemma batches_of_valid:
  "\<forall>c \<in> set cs. P c \<Longrightarrow> \<forall>b \<in> set (batches_of n cs). \<forall>c \<in> set b. P c"
proof (cases "n = 0")
  case True
  then show ?thesis
    by (simp add: batches_of.simps)
next
  case False
  assume a: "\<forall>c \<in> set cs. P c"
  have "set (concat (batches_of n cs)) = set cs"
    using False by (simp add: batches_of_concat)
  then show ?thesis
    using a by auto
qed

subsection \<open>The query and its join\<close>

lemma searchSimilar_answer:
  "length q = EMBEDDING_DIM \<Longrightarrow> knn (vec_index d) q k = Some ms \<Longrightarrow>
   searchSimilar knn q k d =
     Inr (map to_result (sql_limit k (sort_key snd (join_code_chunks ms (code_chunks d)))))"
  by (simp add: searchSimilar_def assertEmbeddingDim_good float32ToBuffer_def)

lemma searchSimilar_Inr:
  "searchSimilar knn q k d = Inr rs \<Longrightarrow>
   \<exists>ms. knn (vec_index d) q k = Some ms \<and>
     rs = map to_result (sql_limit k (sort_key snd (join_code_chunks ms (code_chunks d))))"
  by (auto simp: searchSimilar_def float32ToBuffer_def split: sum.splits option.splits)

lemma set_sql_limit: "set (sql_limit k xs) \<subseteq> set xs"
  by (auto simp: sql_limit_def dest: in_set_takeD)



lemma in_join_code_chunks:
  "p \<in> set (join_code_chunks ms rows) \<longleftrightarrow>
   fst p \<in> set rows \<and> (col_id (fst p), snd p) \<in> set ms"
  by (cases p) (force simp: join_code_chunks_def)

lemma result_rows:
  assumes "r \<in> set (map to_result (sql_limit k (sort_key snd (join_code_chunks ms rows))))"
  shows "res_id r \<in> col_id ` set rows \<and>
    (\<exists>v. (res_id r, v) \<in> set ms \<and> res_distance r = Number v)"
proof -
  from assms obtain p where p: "p \<in> set (sql_limit k (sort_key snd (join_code_chunks ms rows)))"
    and r: "r = to_result p"
    by auto
  from p have "p \<in> set (join_code_chunks ms rows)"
    using set_sql_limit [of k "sort_key snd (join_code_chunks ms rows)"] by auto
  then show ?thesis
    using r by (auto simp: in_join_code_chunks to_result_def)
qed


lemma join_without_orphans:
  "join_code_chunks (filter (\<lambda>m. fst m \<in> col_id ` set rows) ms) rows = join_code_chunks ms rows"
proof (induction ms)
  case Nil
  then show ?case by (simp add: join_code_chunks_def)
next
  case (Cons m ms)
  have "filter (\<lambda>c. col_id c = fst m) rows = []" if "fst m \<notin> col_id ` set rows"
    using that by (rule filter_none_eq)
  then show ?case
    using Cons by (auto simp: join_code_chunks_def)
qed

section \<open>The two stores stay in correspondence\<close>

text \<open>
  Claim C2. The correspondence holds for the empty database and is kept by every
  statement and transaction: a single insert, a batch, a deletion, a replacement and a
  whole bulk insertion (which returns for a positive batch size). After a bulk insertion
  of records that all have 384 components into a database whose index was declared with
  384, every record has its row, the rows have their mirrors, and the correspondence holds.
\<close>

theorem mirror_bijection_invariant:
  "mirror_bijection empty_db \<and>
   (mirror_bijection d \<longrightarrow>
      mirror_bijection (snd (insertChunk c d)) \<and>
      mirror_bijection (snd (insertMany b d)) \<and>
      mirror_bijection (snd (delete_code_chunks i d)) \<and>
      mirror_bijection (snd (update_code_chunks i c d)) \<and>
      (0 < n \<longrightarrow> (\<exists>r d'. bulkInsertChunks cs n d = Some (r, d') \<and> mirror_bijection d')) \<and>
      (0 < n \<and> cs \<noteq> [] \<and> vec_dim d = EMBEDDING_DIM \<and>
       (\<forall>c \<in> set cs. length (embedding c) = EMBEDDING_DIM) \<longrightarrow>
         (\<exists>d' new. bulkInsertChunks cs n d = Some (Inr (), d') \<and> mirror_bijection d' \<and>
            code_chunks d' = code_chunks d @ new \<and>
            vec_index d' = vec_index d @ map mirror_of new \<and>
            map row_data new = map chunk_data cs)))"
proof -
  have e: "mirror_bijection empty_db"
    by (simp add: mirror_bijection_def empty_db_def)
  have step: ?thesis if m: "mirror_bijection d"
  proof -
    from m have c: "consistent d"
      by (simp add: consistent_mirror)
    have "consistent (snd (insertChunk c d))"
      using c insert_code_chunks_consistent [OF c, of c]
      by (simp add: insertChunk_def split: sum.splits)
    then have i1: "mirror_bijection (snd (insertChunk c d))"
      by (simp add: consistent_mirror)
    have i2: "mirror_bijection (snd (insertMany b d))"
      using insertMany_consistent [OF c] by (simp add: consistent_mirror)
    have i3: "mirror_bijection (snd (delete_code_chunks i d))"
      using delete_code_chunks_consistent [OF c] by (simp add: consistent_mirror)
    have i4: "mirror_bijection (snd (update_code_chunks i c d))"
      using update_code_chunks_consistent [OF c] by (simp add: consistent_mirror)
    have i5: "\<exists>r d'. bulkInsertChunks cs n d = Some (r, d') \<and> mirror_bijection d'" if "0 < n"
    proof -
      let ?res = "run_batches (batches_of (nat n) cs) d"
      have "bulkInsertChunks cs n d = Some (fst ?res, snd ?res)"
        using that by (simp add: bulkInsertChunks_run)
      moreover have "mirror_bijection (snd ?res)"
        using run_batches_consistent [OF c] by (simp add: consistent_mirror)
      ultimately show ?thesis
        by blast
    qed
    have i6: "\<exists>d' new. bulkInsertChunks cs n d = Some (Inr (), d') \<and> mirror_bijection d' \<and>
            code_chunks d' = code_chunks d @ new \<and>
            vec_index d' = vec_index d @ map mirror_of new \<and>
            map row_data new = map chunk_data cs"
      if n: "0 < n" and v: "vec_dim d = EMBEDDING_DIM"
        "\<forall>c \<in> set cs. length (embedding c) = EMBEDDING_DIM"
    proof -
      let ?bs = "batches_of (nat n) cs"
      let ?res = "run_batches ?bs d"
      have "\<forall>b \<in> set ?bs. \<forall>c \<in> set b. length (embedding c) = EMBEDDING_DIM"
        using v(2) by (rule batches_of_valid)
      then have "fst ?res = Inr ()"
        using c v(1) by (simp add: run_batches_valid)
      then have r: "?res = (Inr (), snd ?res)"
        by (metis prod.collapse)
      from run_batches_stored [OF r] obtain new where
        "code_chunks (snd ?res) = code_chunks d @ new"
        "vec_index (snd ?res) = vec_index d @ map mirror_of new"
        "map row_data new = map chunk_data (concat ?bs)"
        by blast
      moreover have "concat ?bs = cs"
        using n by (simp add: batches_of_concat)
      moreover have "bulkInsertChunks cs n d = Some (Inr (), snd ?res)"
        using n r by (simp add: bulkInsertChunks_run)
      moreover have "mirror_bijection (snd ?res)"
        using run_batches_consistent [OF c] by (simp add: consistent_mirror)
      ultimately show ?thesis
        by auto
    qed
    from e i1 i2 i3 i4 i5 i6 show ?thesis
      by blast
  qed
  from e step show ?thesis
    by blast
qed

theorem mirror_bijection_invariant_witness:
  "mirror_bijection empty_db \<and>
   mirror_bijection (snd (insertChunk zero_chunk empty_db)) \<and>
   mirror_bijection (snd (delete_code_chunks 1 empty_db)) \<and>
   (\<exists>d' new. bulkInsertChunks [zero_chunk, zero_chunk, zero_chunk] 2 empty_db = Some (Inr (), d') \<and>
      mirror_bijection d' \<and> code_chunks d' = new \<and> vec_index d' = map mirror_of new \<and>
      map row_data new = map chunk_data [zero_chunk, zero_chunk, zero_chunk])"
  using mirror_bijection_invariant
    [of empty_db zero_chunk "[zero_chunk]" 1 2 "[zero_chunk, zero_chunk, zero_chunk]"]
    zero_chunk_valid
  by (simp add: empty_db_def)

section \<open>Bulk insertion in batches\<close>












section \<open>The order and number of the results\<close>

lemma one_row_db_eq:
  "one_row_db =
     \<lparr>code_chunks = [mk_row 1 zero_chunk], sqlite_sequence = 1,
      vec_index = [(1, embedding zero_chunk)], vec_dim = 384\<rparr>"
  using zero_chunk_valid
  by (simp add: one_row_db_def insertChunk_def assertEmbeddingDim_good insert_code_chunks_eq
        empty_db_def next_rowid_def EMBEDDING_DIM_def)















section \<open>Establishing the schema twice\<close>

lemma ensureSchema_eq:
  "ensureSchema c =
     Inr (c\<lparr>has_code_chunks := True,
            vec_index_dim := Some (case vec_index_dim c of None \<Rightarrow> EMBEDDING_DIM | Some n \<Rightarrow> n),
            has_after_insert := True, has_after_delete := True, has_after_update := True\<rparr>)"
  by (cases c)
    (auto simp: ensureSchema_def and_then_def create_code_chunks_def create_vec_index_def
       create_after_insert_def create_after_delete_def create_after_update_def
       split: option.splits)

text \<open>
  Claim C5 as stated fails: on a catalog whose index was declared with 128 dimensions
  the five statements succeed and change nothing, so no error reports the other dimension.
\<close>

theorem ensureSchema_keeps_dimension_counterexample:
  "ensureSchema catalog_128 = Inr catalog_128 \<and> vec_index_dim catalog_128 = Some 128 \<and>
   (128::nat) \<noteq> EMBEDDING_DIM"
  by (simp add: ensureSchema_eq catalog_128_def EMBEDDING_DIM_def)

text \<open>
  Claim C5, as amended. Establishing the schema never fails and is idempotent: a second
  run changes nothing. Afterwards the table and the three triggers exist; an index that
  existed keeps its declared dimension, whatever it is, and a new one is declared with 384.
\<close>

theorem ensureSchema_idempotent:
  "\<exists>c'. ensureSchema c = Inr c' \<and> ensureSchema c' = Inr c' \<and>
      has_code_chunks c' \<and> has_after_insert c' \<and> has_after_delete c' \<and> has_after_update c' \<and>
      vec_index_dim c' = Some (case vec_index_dim c of None \<Rightarrow> EMBEDDING_DIM | Some n \<Rightarrow> n)"
  by (simp add: ensureSchema_eq)

section \<open>Deleting a row\<close>

text \<open>
  Claim C6. Deleting the row with id \<open>i\<close> succeeds; afterwards no row has that id, the
  entries of the index with that rowid are removed by the same statement (all others
  stay), and no search, with any engine, query vector and \<open>k\<close>, returns a result with
  that id.
\<close>

theorem delete_removes_mirror:
  "fst (delete_code_chunks i d) = Inr () \<and>
   i \<notin> col_id ` set (code_chunks (snd (delete_code_chunks i d))) \<and>
   (i \<in> col_id ` set (code_chunks d) \<longrightarrow>
      vec_index (snd (delete_code_chunks i d)) = filter (\<lambda>v. fst v \<noteq> i) (vec_index d) \<and>
      i \<notin> fst ` set (vec_index (snd (delete_code_chunks i d)))) \<and>
   (searchSimilar knn q k (snd (delete_code_chunks i d)) = Inr rs \<longrightarrow> i \<notin> res_id ` set rs)"
proof -
  let ?d' = "snd (delete_code_chunks i d)"
  have a: "fst (delete_code_chunks i d) = Inr ()"
    by (simp add: delete_code_chunks_eq)
  have b: "i \<notin> col_id ` set (code_chunks ?d')"
    by (auto simp: delete_code_chunks_eq)
  have c: "vec_index ?d' = filter (\<lambda>v. fst v \<noteq> i) (vec_index d) \<and> i \<notin> fst ` set (vec_index ?d')"
    if "i \<in> col_id ` set (code_chunks d)"
    using that by (auto simp: delete_code_chunks_eq)
  have s: "i \<notin> res_id ` set rs" if "searchSimilar knn q k ?d' = Inr rs"
  proof
    assume "i \<in> res_id ` set rs"
    then obtain r where r: "r \<in> set rs" "res_id r = i"
      by auto
    from searchSimilar_Inr [OF that] obtain ms where
      "rs = map to_result (sql_limit k (sort_key snd (join_code_chunks ms (code_chunks ?d'))))"
      by blast
    with r(1) have "res_id r \<in> col_id ` set (code_chunks ?d')"
      using result_rows by blast
    with r(2) b show False
      by simp
  qed
  from a b c s show ?thesis
    by blast
qed

theorem delete_removes_mirror_witness:
  "1 \<in> col_id ` set (code_chunks one_row_db) \<and>
   delete_code_chunks 1 one_row_db = (Inr (), empty_db\<lparr>sqlite_sequence := 1\<rparr>) \<and>
   searchSimilar zero_knn (replicate 384 0) 5 (snd (delete_code_chunks 1 one_row_db)) = Inr [] \<and>
   1 \<notin> res_id ` set ([]::SearchResult list)"
proof -
  have l: "length (replicate 384 (0::float32)) = EMBEDDING_DIM"
    by (simp add: EMBEDDING_DIM_def)
  have m: "1 \<in> col_id ` set (code_chunks one_row_db)"
    by (simp add: one_row_db_eq mk_row_def)
  have e: "delete_code_chunks 1 one_row_db = (Inr (), empty_db\<lparr>sqlite_sequence := 1\<rparr>)"
    by (simp add: delete_code_chunks_eq one_row_db_eq mk_row_def empty_db_def EMBEDDING_DIM_def)
  have s: "searchSimilar zero_knn (replicate 384 0) 5 (snd (delete_code_chunks 1 one_row_db)) = Inr []"
    using l by (simp add: e searchSimilar_answer zero_knn_def scan_knn_def empty_db_def
        join_code_chunks_def sql_limit_def EMBEDDING_DIM_def)
  show ?thesis
    using m e s delete_removes_mirror [of 1 one_row_db zero_knn "replicate 384 0" 5 "[]"]
    by simp
qed

section \<open>Replacing a row\<close>

text \<open>
  Claim C7. The trigger after an update is the deletion of the entry of the old id
  followed by the insertion of an entry with the new embedding. A replacement of row
  \<open>i\<close> with an embedding of the declared dimension leaves the index without its old
  entry and with the fresh one appended; when the insertion is refused the whole
  statement is undone. In the opposite order the insertion would be refused, the rowid
  being taken.
\<close>

theorem update_deletes_then_inserts:
  "code_chunks_after_update old new =
     [VecDelete (col_id old), VecInsert (col_id new) (col_embedding new)] \<and>
   (i \<in> col_id ` set (code_chunks d) \<and> length (embedding c) = vec_dim d \<longrightarrow>
      fst (update_code_chunks i c d) = Inr () \<and>
      vec_index (snd (update_code_chunks i c d)) =
        filter (\<lambda>v. fst v \<noteq> i) (vec_index d) @ [(i, embedding c)] \<and>
      code_chunks (snd (update_code_chunks i c d)) =
        map (\<lambda>r. if col_id r = i then mk_row i c else r) (code_chunks d)) \<and>
   (i \<in> col_id ` set (code_chunks d) \<and> length (embedding c) \<noteq> vec_dim d \<longrightarrow>
      update_code_chunks i c d = (Inl SQLiteError, d)) \<and>
   (col_id new \<in> fst ` set (vec_index d) \<longrightarrow>
      exec_vec_stmts (rev (code_chunks_after_update old new)) d = Inl SQLiteError)"
  by (auto simp: update_code_chunks_eq code_chunks_after_update_def mk_row_def float32ToBuffer_def)

theorem update_deletes_then_inserts_witness:
  "1 \<in> col_id ` set (code_chunks one_row_db) \<and>
   length (embedding ones_chunk) = vec_dim one_row_db \<and>
   1 \<in> fst ` set (vec_index one_row_db) \<and>
   code_chunks_after_update (mk_row 1 zero_chunk) (mk_row 1 ones_chunk) =
     [VecDelete 1, VecInsert 1 (embedding ones_chunk)] \<and>
   fst (update_code_chunks 1 ones_chunk one_row_db) = Inr () \<and>
   vec_index (snd (update_code_chunks 1 ones_chunk one_row_db)) = [(1, embedding ones_chunk)] \<and>
   code_chunks (snd (update_code_chunks 1 ones_chunk one_row_db)) = [mk_row 1 ones_chunk] \<and>
   update_code_chunks 1 short_chunk one_row_db = (Inl SQLiteError, one_row_db) \<and>
   exec_vec_stmts (rev (code_chunks_after_update (mk_row 1 zero_chunk) (mk_row 1 ones_chunk)))
     one_row_db = Inl SQLiteError"
proof -
  have h: "1 \<in> col_id ` set (code_chunks one_row_db)"
    "length (embedding ones_chunk) = vec_dim one_row_db" "1 \<in> fst ` set (vec_index one_row_db)"
    "length (embedding short_chunk) \<noteq> vec_dim one_row_db"
    by (simp_all add: one_row_db_eq mk_row_def ones_chunk_def sample_chunk_def short_chunk_def)
  show ?thesis
    using h
      update_deletes_then_inserts
        [of "mk_row 1 zero_chunk" "mk_row 1 ones_chunk" 1 one_row_db ones_chunk]
      update_deletes_then_inserts
        [of "mk_row 1 zero_chunk" "mk_row 1 ones_chunk" 1 one_row_db short_chunk]
    by (simp add: one_row_db_eq mk_row_def float32ToBuffer_def)
qed

section \<open>Matches without a row\<close>

text \<open>
  Claim C8. When the lookup of the index answers, \<open>searchSimilar\<close> returns results and
  no error; every result has a row, a match whose rowid has no row gives no result, and
  the results are those of the matches that have a row.
\<close>

theorem search_skips_orphans:
  assumes "length q = EMBEDDING_DIM" and "knn (vec_index d) q k = Some ms"
  shows "\<exists>rs. searchSimilar knn q k d = Inr rs \<and>
     (\<forall>r \<in> set rs. res_id r \<in> col_id ` set (code_chunks d)) \<and>
     (\<forall>m \<in> set ms. fst m \<notin> col_id ` set (code_chunks d) \<longrightarrow> fst m \<notin> res_id ` set rs) \<and>
     rs = map to_result (sql_limit k (sort_key snd
            (join_code_chunks (filter (\<lambda>m. fst m \<in> col_id ` set (code_chunks d)) ms)
               (code_chunks d))))"
proof -
  let ?rs = "map to_result (sql_limit k (sort_key snd (join_code_chunks ms (code_chunks d))))"
  have a: "searchSimilar knn q k d = Inr ?rs"
    using assms by (rule searchSimilar_answer)
  have b: "res_id r \<in> col_id ` set (code_chunks d)" if "r \<in> set ?rs" for r
    using that result_rows by blast
  have c: "fst m \<notin> res_id ` set ?rs" if "fst m \<notin> col_id ` set (code_chunks d)" for m
  proof
    assume "fst m \<in> res_id ` set ?rs"
    then obtain r where "r \<in> set ?rs" "res_id r = fst m"
      by (metis imageE)
    then show False
      using b that by metis
  qed
  from a b c show ?thesis
    by (auto simp: join_without_orphans)
qed

theorem search_skips_orphans_witness:
  "length (replicate 384 (0::float32)) = EMBEDDING_DIM \<and>
   zero_knn (vec_index orphan_db) (replicate 384 0) 5 = Some [(7, Some 0)] \<and>
   7 \<notin> col_id ` set (code_chunks orphan_db) \<and>
   searchSimilar zero_knn (replicate 384 0) 5 orphan_db = Inr []"
proof -
  have l: "length (replicate 384 (0::float32)) = EMBEDDING_DIM"
    by (simp add: EMBEDDING_DIM_def)
  have z: "zero_knn (vec_index orphan_db) (replicate 384 0) 5 = Some [(7, Some 0)]"
    by (simp add: zero_knn_def scan_knn_def zero_score_def orphan_db_def empty_db_def)
  have o: "7 \<notin> col_id ` set (code_chunks orphan_db)"
    by (simp add: orphan_db_def empty_db_def)
  from search_skips_orphans [where knn = zero_knn and d = orphan_db, OF l z] o show ?thesis
    using l z by (auto simp: orphan_db_def empty_db_def join_code_chunks_def sql_limit_def)
qed

end
